theory Spec2Isabelle
  imports Complex_Main
begin

section \<open>Realistic-time synthesiser: outlier filter and representative delay\<close>

text \<open>
  Source: \<^verbatim>\<open>services/realistic_stop_times_service.py\<close>.  Delays are Python integers
  (\<^verbatim>\<open>int(float(delay_str))\<close>).  The multiplier \<^verbatim>\<open>IQR_MULTIPLIER = 3.0\<close> is a float in the
  source; the products and comparisons it takes part in are exact for every delay of
  magnitude below \<open>2^51\<close> seconds, so the bounds are computed here over the integers.
\<close>

definition IQR_MULTIPLIER :: int where
  "IQR_MULTIPLIER = 3"

text \<open>Lines 116--129: the quartiles of a group and the retained samples.\<close>

definition q1_idx :: "int list \<Rightarrow> nat" where
  "q1_idx sorted_delays = length sorted_delays div 4"

definition q3_idx :: "int list \<Rightarrow> nat" where
  "q3_idx sorted_delays = (3 * length sorted_delays) div 4"

definition q1_of :: "int list \<Rightarrow> int" where
  "q1_of delays = (let sorted_delays = sort delays in sorted_delays ! q1_idx sorted_delays)"

definition q3_of :: "int list \<Rightarrow> int" where
  "q3_of delays = (let sorted_delays = sort delays in sorted_delays ! q3_idx sorted_delays)"

definition lower_bound :: "int list \<Rightarrow> int" where
  "lower_bound delays =
     (let q1 = q1_of delays; q3 = q3_of delays; iqr = q3 - q1
      in q1 - IQR_MULTIPLIER * iqr)"

definition upper_bound :: "int list \<Rightarrow> int" where
  "upper_bound delays =
     (let q1 = q1_of delays; q3 = q3_of delays; iqr = q3 - q1
      in q3 + IQR_MULTIPLIER * iqr)"

definition filtered_delays :: "int list \<Rightarrow> int list" where
  "filtered_delays delays =
     [d \<leftarrow> delays. lower_bound delays \<le> d \<and> d \<le> upper_bound delays]"

text \<open>
  Lines 106--135, one iteration of the second pass: a group with fewer than four samples
  is stored as it is; a larger group is stored filtered, and only when the filtered list
  is not empty.  \<open>delay_stats\<close> is the dictionary of the service object.
\<close>

type_synonym group_key = "string \<times> string"

definition filter_group ::
  "(group_key \<rightharpoonup> int list) \<Rightarrow> group_key \<times> int list \<Rightarrow> (group_key \<rightharpoonup> int list)" where
  "filter_group delay_stats kd =
     (case kd of (key, delays) \<Rightarrow>
        if length delays < 4 then delay_stats(key \<mapsto> delays)
        else if filtered_delays delays \<noteq> [] then delay_stats(key \<mapsto> filtered_delays delays)
        else delay_stats)"

text \<open>The loop over \<^verbatim>\<open>raw_delays.items()\<close>, a dictionary: its keys are distinct.\<close>

definition second_pass ::
  "(group_key \<times> int list) list \<Rightarrow> (group_key \<rightharpoonup> int list) \<Rightarrow> (group_key \<rightharpoonup> int list)" where
  "second_pass raw_delays delay_stats = foldl filter_group delay_stats raw_delays"

text \<open>
  The filtering step seen as a function from a group to the group kept for it (what
  \<^verbatim>\<open>delay_stats[key]\<close> holds after the iteration for that key).
\<close>

definition iqr_step :: "int list \<Rightarrow> int list" where
  "iqr_step delays = (if length delays < 4 then delays else filtered_delays delays)"

text \<open>
  Lines 148--156, \<^verbatim>\<open>_calculate_average_delay\<close>: \<^verbatim>\<open>int(statistics.median(delays))\<close>.
  For an odd number of samples the median is the middle sorted sample; for an even number
  it is the mean of the two middle ones, a float that \<^verbatim>\<open>int\<close> truncates towards zero.
\<close>

definition trunc_half :: "int \<Rightarrow> int" where
  "trunc_half x = (if 0 \<le> x then x div 2 else - ((- x) div 2))"

definition median :: "int list \<Rightarrow> int" where
  "median delays =
     (let data = sort delays; n = length data
      in if n mod 2 = 1 then data ! (n div 2)
         else trunc_half (data ! (n div 2 - 1) + data ! (n div 2)))"

definition calculate_average_delay :: "(group_key \<rightharpoonup> int list) \<Rightarrow> string \<Rightarrow> string \<Rightarrow> int" where
  "calculate_average_delay delay_stats trip_id stop_id =
     (case delay_stats (trip_id, stop_id) of
        None \<Rightarrow> 0
      | Some delays \<Rightarrow> if delays = [] then 0 else median delays)"

section \<open>Realistic-time synthesiser: adjusted times and monotonic progression\<close>

text \<open>
  A time field of \<^verbatim>\<open>stop_times.txt\<close> is either empty or \<^verbatim>\<open>HH:MM:SS\<close> with non-negative
  decimal components (hours may exceed 23).  \<open>Blank\<close> is the empty string and
  \<open>HMS h m s\<close> the string with these three components; \<^verbatim>\<open>f"{h:02d}:{m:02d}:{s:02d}"\<close>
  writes such a string and \<^verbatim>\<open>split(":")\<close> with \<^verbatim>\<open>int\<close> reads the components back.
\<close>

datatype gtfs_time = Blank | HMS nat nat nat

datatype py_error = ValueError | KeyError | IndexError | StopIteration

text \<open>
  Lines 305--306: \<^verbatim>\<open>int(parts[0]) * 3600 + int(parts[1]) * 60 + int(parts[2])\<close>; on the empty
  string \<^verbatim>\<open>int('')\<close> raises.
\<close>

fun time_to_seconds :: "gtfs_time \<Rightarrow> py_error + nat" where
  "time_to_seconds Blank = Inl ValueError"
| "time_to_seconds (HMS h m s) = Inr (h * 3600 + m * 60 + s)"

text \<open>Lines 178--182 and 314--317: seconds written back as a time string.\<close>

definition format_time :: "nat \<Rightarrow> gtfs_time" where
  "format_time adjusted_seconds =
     HMS (adjusted_seconds div 3600) ((adjusted_seconds mod 3600) div 60) (adjusted_seconds mod 60)"

text \<open>Lines 158--186, \<^verbatim>\<open>_adjust_gtfs_time\<close>.\<close>

fun adjust_gtfs_time :: "gtfs_time \<Rightarrow> int \<Rightarrow> gtfs_time" where
  "adjust_gtfs_time Blank delay_seconds = Blank"
| "adjust_gtfs_time (HMS h m s) delay_seconds =
     (let total_seconds = int (h * 3600 + m * 60 + s);
          adjusted_seconds = total_seconds + delay_seconds;
          adjusted_seconds = (if adjusted_seconds < 0 then 0 else adjusted_seconds)
      in format_time (nat adjusted_seconds))"

record stop_time =
  st_trip_id :: string
  st_stop_id :: string
  st_stop_sequence :: int
  arrival_time :: gtfs_time
  departure_time :: gtfs_time

text \<open>
  Lines 288--323, the body of the loop over the stops of one trip: the row as the
  iteration leaves it and the new value of \<^verbatim>\<open>prev_time_seconds\<close> (\<open>None\<close> is Python's
  \<^verbatim>\<open>None\<close>).  A row with an empty arrival time is skipped by \<^verbatim>\<open>continue\<close>.  The two
  counters of the source are only logged and are left out.
\<close>

definition process_stop ::
  "(group_key \<rightharpoonup> int list) \<Rightarrow> string \<Rightarrow> nat option \<Rightarrow> stop_time
     \<Rightarrow> py_error + (stop_time \<times> nat option)" where
  "process_stop delay_stats trip_id prev_time_seconds stop_time =
     (let stop_id = st_stop_id stop_time;
          original_arrival = arrival_time stop_time
      in if original_arrival = Blank then Inr (stop_time, prev_time_seconds)
         else
           let avg_delay = calculate_average_delay delay_stats trip_id stop_id;
               adjusted_arrival =
                 (if avg_delay \<noteq> 0 then adjust_gtfs_time original_arrival avg_delay
                  else original_arrival)
           in case time_to_seconds adjusted_arrival of
                Inl e \<Rightarrow> Inl e
              | Inr current_time_seconds \<Rightarrow>
                  (case prev_time_seconds of
                     None \<Rightarrow>
                       Inr (stop_time\<lparr>arrival_time := adjusted_arrival,
                                       departure_time := adjusted_arrival\<rparr>,
                            Some current_time_seconds)
                   | Some prev \<Rightarrow>
                       if current_time_seconds \<le> prev then
                         let current_time_seconds = prev + 60;
                             adjusted_arrival = format_time current_time_seconds
                         in Inr (stop_time\<lparr>arrival_time := adjusted_arrival,
                                            departure_time := adjusted_arrival\<rparr>,
                                 Some current_time_seconds)
                       else
                         Inr (stop_time\<lparr>arrival_time := adjusted_arrival,
                                         departure_time := adjusted_arrival\<rparr>,
                              Some current_time_seconds)))"

text \<open>
  Lines 287--323, the loop itself.  The rows are dictionaries updated in place; the model
  returns the updated rows in the order in which the loop visits them.  An exception
  leaves the function, so the first error is the result.
\<close>

fun process_stops ::
  "(group_key \<rightharpoonup> int list) \<Rightarrow> string \<Rightarrow> nat option \<Rightarrow> stop_time list
     \<Rightarrow> py_error + stop_time list" where
  "process_stops delay_stats trip_id prev_time_seconds [] = Inr []"
| "process_stops delay_stats trip_id prev_time_seconds (stop_time # stops) =
     (case process_stop delay_stats trip_id prev_time_seconds stop_time of
        Inl e \<Rightarrow> Inl e
      | Inr (updated, prev_time_seconds') \<Rightarrow>
          (case process_stops delay_stats trip_id prev_time_seconds' stops of
             Inl e \<Rightarrow> Inl e
           | Inr rest \<Rightarrow> Inr (updated # rest)))"

text \<open>
  Lines 269--278: \<^verbatim>\<open>trips_dict\<close>, a \<^verbatim>\<open>defaultdict(list)\<close> kept as an association list in
  insertion order, and the stable sort of every trip's rows by \<^verbatim>\<open>stop_sequence\<close>.
\<close>

fun dict_append :: "('k \<times> 'v list) list \<Rightarrow> 'k \<Rightarrow> 'v \<Rightarrow> ('k \<times> 'v list) list" where
  "dict_append [] k v = [(k, [v])]"
| "dict_append ((k', vs) # rest) k v =
     (if k' = k then (k', vs @ [v]) # rest else (k', vs) # dict_append rest k v)"

definition trips_dict :: "stop_time list \<Rightarrow> (string \<times> stop_time list) list" where
  "trips_dict stop_times_data =
     map (\<lambda>(trip_id, stops). (trip_id, sort_key st_stop_sequence stops))
       (foldl (\<lambda>d stop_time.
                 if st_trip_id stop_time \<noteq> [] then dict_append d (st_trip_id stop_time) stop_time
                 else d)
          [] stop_times_data)"

text \<open>
  Lines 284--323: every trip is processed on its own, starting from
  \<^verbatim>\<open>prev_time_seconds = None\<close>.  The result pairs every trip with its rows in stop-sequence
  order as the loop leaves them.
\<close>

definition calculate_realistic_stop_times ::
  "(group_key \<rightharpoonup> int list) \<Rightarrow> stop_time list \<Rightarrow> (string \<times> (py_error + stop_time list)) list" where
  "calculate_realistic_stop_times delay_stats stop_times_data =
     map (\<lambda>(trip_id, stops). (trip_id, process_stops delay_stats trip_id None stops))
       (trips_dict stop_times_data)"

text \<open>
  The vocabulary of the monotonicity property: the rows that carry a time, the time of a
  row in seconds, and the candidate time of an input row (scheduled time plus
  representative delay).
\<close>

definition timed :: "stop_time list \<Rightarrow> stop_time list" where
  "timed rows = [r \<leftarrow> rows. arrival_time r \<noteq> Blank]"

definition arrival_seconds :: "stop_time \<Rightarrow> int" where
  "arrival_seconds r = (case arrival_time r of Blank \<Rightarrow> 0 | HMS h m s \<Rightarrow> int (h * 3600 + m * 60 + s))"

definition candidate :: "(group_key \<rightharpoonup> int list) \<Rightarrow> string \<Rightarrow> stop_time \<Rightarrow> int" where
  "candidate delay_stats trip_id r =
     arrival_seconds r + calculate_average_delay delay_stats trip_id (st_stop_id r)"

text \<open>
  The rule of the specification for one trip, written from its words: clamp the candidate
  to zero, and where it does not exceed the previous realistic time replace it by that time
  plus 60 seconds.  It is compared with \<open>process_stops\<close> below.
\<close>

fun spec_enforce :: "int option \<Rightarrow> int list \<Rightarrow> int list" where
  "spec_enforce prev [] = []"
| "spec_enforce prev (c # cs) =
     (let clamped = max 0 c;
          realistic = (case prev of None \<Rightarrow> clamped
                       | Some p \<Rightarrow> if clamped \<le> p then p + 60 else clamped)
      in realistic # spec_enforce (Some realistic) cs)"

section \<open>Great-circle distance\<close>

text \<open>
  Source: \<^verbatim>\<open>haversine\<close>, defined identically in \<^verbatim>\<open>services/arrival_logger.py\<close> (lines
  134--143) and \<^verbatim>\<open>services/raptor_service.py\<close> (lines 22--31).  Coordinates and distances
  are double-precision floats in the source and real numbers here; rounding is not
  modelled.  \<open>atan2\<close> is \<^verbatim>\<open>math.atan2\<close>.
\<close>

definition radians :: "real \<Rightarrow> real" where
  "radians x = x * pi / 180"

definition atan2 :: "real \<Rightarrow> real \<Rightarrow> real" where
  "atan2 y x =
     (if 0 < x then arctan (y / x)
      else if x < 0 \<and> 0 \<le> y then arctan (y / x) + pi
      else if x < 0 \<and> y < 0 then arctan (y / x) - pi
      else if 0 < y then pi / 2
      else if y < 0 then - pi / 2
      else 0)"

definition haversine :: "real \<Rightarrow> real \<Rightarrow> real \<Rightarrow> real \<Rightarrow> real" where
  "haversine lat1 lon1 lat2 lon2 =
     (let R = 6371000;
          phi1 = radians lat1; phi2 = radians lat2;
          dphi = radians (lat2 - lat1);
          dlambda = radians (lon2 - lon1);
          a = (sin (dphi / 2))\<^sup>2 + cos phi1 * cos phi2 * (sin (dlambda / 2))\<^sup>2;
          c = 2 * atan2 (sqrt a) (sqrt (1 - a))
      in R * c)"

text \<open>\<^verbatim>\<open>int(x)\<close> on a float: truncation towards zero.\<close>

definition py_int :: "real \<Rightarrow> int" where
  "py_int x = (if 0 \<le> x then \<lfloor>x\<rfloor> else \<lceil>x\<rceil>)"

section \<open>Arrival observer\<close>

text \<open>
  Source: \<^verbatim>\<open>services/arrival_logger.py\<close>.  An instant (\<^verbatim>\<open>datetime\<close>) is a real number of
  seconds on a common time axis, so \<^verbatim>\<open>(now - last_seen).total_seconds()\<close> is a difference
  of reals.  The clock is read inside the source's functions; here the reading is an
  argument \<open>now\<close>.
\<close>

definition POLL_INTERVAL :: real where "POLL_INTERVAL = 5"
definition DISTANCE_THRESHOLD_M :: real where "DISTANCE_THRESHOLD_M = 30"
definition CACHE_TTL_SECONDS :: real where "CACHE_TTL_SECONDS = 60"

text \<open>
  The value of \<^verbatim>\<open>vehicle_latest_arrival[trip_id]\<close> (lines 302--311): the fields handed to
  readers, extended by the internal \<^verbatim>\<open>last_seen\<close>.  The \<^verbatim>\<open>timestamp\<close> string is the
  formatted \<open>now\<close> and is kept as the instant.
\<close>

record arrival_info =
  ai_stop_id :: string
  ai_stop_name :: string
  ai_stop_sequence :: string
  ai_timestamp :: real
  ai_delay_seconds :: "int option"
  ai_route_id :: "string option"
  ai_trip_id :: string

record arrival_entry = arrival_info +
  last_seen :: real

text \<open>
  One row of the arrivals log (lines 206--220); \<^verbatim>\<open>vehicle_id\<close> repeats the trip id, and
  \<^verbatim>\<open>timestamp\<close>, \<^verbatim>\<open>actual_arrival\<close>, \<^verbatim>\<open>day_of_week\<close> and \<^verbatim>\<open>hour\<close> are all renderings of
  \<open>now\<close>.
\<close>

record log_row =
  lr_now :: real
  lr_trip_id :: string
  lr_route_id :: "string option"
  lr_stop_id :: string
  lr_stop_name :: string
  lr_scheduled_arrival :: "real option"
  lr_delay_seconds :: "int option"

text \<open>
  The mutable state of the observer: the two dictionaries guarded by \<^verbatim>\<open>data_lock\<close> and
  the rows appended to the log file since the process started.
\<close>

record logger_state =
  vehicle_arrivals :: "string \<rightharpoonup> string set"
  vehicle_latest_arrival :: "string \<rightharpoonup> arrival_entry"
  arrival_log :: "log_row list"

definition initial_state :: logger_state where
  "initial_state = \<lparr>vehicle_arrivals = Map.empty, vehicle_latest_arrival = Map.empty,
                     arrival_log = []\<rparr>"

text \<open>
  Lines 175--199, \<^verbatim>\<open>get_latest_arrival\<close>: the value returned and the state left behind.
  A stored entry is a non-empty dictionary whose \<^verbatim>\<open>last_seen\<close> is a \<^verbatim>\<open>datetime\<close>, so both
  truth tests of the source succeed on it.
\<close>

definition get_latest_arrival ::
  "logger_state \<Rightarrow> string \<Rightarrow> real \<Rightarrow> arrival_info option \<times> logger_state" where
  "get_latest_arrival s trip_id now =
     (case vehicle_latest_arrival s trip_id of
        None \<Rightarrow> (None, s)
      | Some arrival \<Rightarrow>
          let age_seconds = now - last_seen arrival
          in if age_seconds > CACHE_TTL_SECONDS then
               (None, s\<lparr>vehicle_latest_arrival := (vehicle_latest_arrival s)(trip_id := None),
                         vehicle_arrivals := (vehicle_arrivals s)(trip_id := None)\<rparr>)
             else (Some (arrival_info.truncate arrival), s))"

text \<open>
  Static data of the observer (lines 66--101) and the entities of one decoded feed
  (lines 249--265).  \<^verbatim>\<open>_parse_gtfs_time\<close> anchors a schedule string to a calendar date in
  the zone Europe/Sofia; calendar and zone arithmetic are outside this model, so the
  function is a parameter of the configuration.
\<close>

record stop_coords =
  sc_name :: string
  sc_lat :: real
  sc_lon :: real

record stop_info =
  si_stop_id :: string
  si_arrival_time :: string
  si_stop_sequence :: string

record logger_config =
  lc_stops :: "string \<rightharpoonup> stop_coords"
  lc_trip_stops :: "string \<rightharpoonup> stop_info list"
  lc_parse_gtfs_time :: "string \<Rightarrow> string \<Rightarrow> real \<Rightarrow> real option"

record feed_entity =
  fe_has_vehicle :: bool
  fe_has_position :: bool
  fe_trip_id :: "string option"
  fe_route_id :: "string option"
  fe_latitude :: real
  fe_longitude :: real

text \<open>
  Lines 268--313, the body of the loop over the stops of the vehicle's trip: the distance
  test, the deduplication against \<^verbatim>\<open>vehicle_arrivals[trip_id]\<close>, the delay, the log row and
  the two dictionary updates.
\<close>

definition check_stop ::
  "logger_config \<Rightarrow> real \<Rightarrow> string \<Rightarrow> string option \<Rightarrow> real \<Rightarrow> real
     \<Rightarrow> logger_state \<Rightarrow> stop_info \<Rightarrow> logger_state" where
  "check_stop cfg now trip_id route_id lat lon s stop_info =
     (let stop_id = si_stop_id stop_info
      in case lc_stops cfg stop_id of
           None \<Rightarrow> s
         | Some stop \<Rightarrow>
             if stop_id = [] then s
             else
               let distance = haversine lat lon (sc_lat stop) (sc_lon stop)
               in if distance \<ge> DISTANCE_THRESHOLD_M then s
                  else
                    let seen = (case vehicle_arrivals s trip_id of None \<Rightarrow> {} | Some ids \<Rightarrow> ids);
                        s = s\<lparr>vehicle_arrivals := (vehicle_arrivals s)(trip_id \<mapsto> seen)\<rparr>
                    in if stop_id \<in> seen then s
                       else
                         let scheduled_time_str = si_arrival_time stop_info;
                             stop_sequence = si_stop_sequence stop_info;
                             scheduled_dt = lc_parse_gtfs_time cfg scheduled_time_str trip_id now;
                             delay_sec = (case scheduled_dt of
                                            None \<Rightarrow> None
                                          | Some dt \<Rightarrow> Some (py_int (now - dt)))
                         in s\<lparr>arrival_log := arrival_log s @
                                  [\<lparr>lr_now = now, lr_trip_id = trip_id, lr_route_id = route_id,
                                    lr_stop_id = stop_id, lr_stop_name = sc_name stop,
                                    lr_scheduled_arrival = scheduled_dt,
                                    lr_delay_seconds = delay_sec\<rparr>],
                               vehicle_arrivals := (vehicle_arrivals s)(trip_id \<mapsto> insert stop_id seen),
                               vehicle_latest_arrival := (vehicle_latest_arrival s)(trip_id \<mapsto>
                                  \<lparr>ai_stop_id = stop_id, ai_stop_name = sc_name stop,
                                    ai_stop_sequence = stop_sequence, ai_timestamp = now,
                                    ai_delay_seconds = delay_sec, ai_route_id = route_id,
                                    ai_trip_id = trip_id, last_seen = now\<rparr>)\<rparr>)"

text \<open>
  Lines 249--313, one feed entity; the second component collects \<^verbatim>\<open>trip_ids_in_feed\<close>.
\<close>

definition process_entity ::
  "logger_config \<Rightarrow> real \<Rightarrow> logger_state \<times> string set \<Rightarrow> feed_entity
     \<Rightarrow> logger_state \<times> string set" where
  "process_entity cfg now acc entity =
     (case acc of (s, trip_ids_in_feed) \<Rightarrow>
        if \<not> (fe_has_vehicle entity \<and> fe_has_position entity) then acc
        else case fe_trip_id entity of
               None \<Rightarrow> acc
             | Some trip_id \<Rightarrow>
                 (case lc_trip_stops cfg trip_id of
                    None \<Rightarrow> acc
                  | Some trip_stop_list \<Rightarrow>
                      if trip_id = [] then acc
                      else
                        (foldl (check_stop cfg now trip_id (fe_route_id entity)
                                  (fe_latitude entity) (fe_longitude entity))
                           s trip_stop_list,
                         insert trip_id trip_ids_in_feed)))"

text \<open>Lines 316--319: refresh \<^verbatim>\<open>last_seen\<close> of every trip seen in this feed.\<close>

definition touch_last_seen :: "real \<Rightarrow> string set \<Rightarrow> logger_state \<Rightarrow> logger_state" where
  "touch_last_seen now trip_ids_in_feed s =
     s\<lparr>vehicle_latest_arrival :=
          (\<lambda>trip_id. case vehicle_latest_arrival s trip_id of
                        None \<Rightarrow> None
                      | Some arrival \<Rightarrow>
                          if trip_id \<in> trip_ids_in_feed then Some (arrival\<lparr>last_seen := now\<rparr>)
                          else Some arrival)\<rparr>"

text \<open>
  Lines 229--321, one tick of \<^verbatim>\<open>poll_vehicles\<close> on a feed that was fetched and decoded.
\<close>

definition poll_tick :: "logger_config \<Rightarrow> feed_entity list \<Rightarrow> real \<Rightarrow> logger_state \<Rightarrow> logger_state" where
  "poll_tick cfg feed now s =
     (case foldl (process_entity cfg now) (s, {}) feed of
        (s', trip_ids_in_feed) \<Rightarrow> touch_last_seen now trip_ids_in_feed s')"

text \<open>
  The operations on the observer during one process lifetime: a tick with a decoded feed,
  a tick skipped after a network or decode error (lines 233--236 and 323--326), and a
  cache read.  Each operation is taken as a whole.
\<close>

datatype observer_op =
    Poll "feed_entity list" real
  | PollFailed
  | Read string real

fun observer_step :: "logger_config \<Rightarrow> logger_state \<Rightarrow> observer_op \<Rightarrow> logger_state" where
  "observer_step cfg s (Poll feed now) = poll_tick cfg feed now s"
| "observer_step cfg s PollFailed = s"
| "observer_step cfg s (Read trip_id now) = snd (get_latest_arrival s trip_id now)"

definition observer_run :: "logger_config \<Rightarrow> logger_state \<Rightarrow> observer_op list \<Rightarrow> logger_state" where
  "observer_run cfg s ops = foldl (observer_step cfg) s ops"

text \<open>
  Vocabulary of the properties: the stops observed for a trip, the records of the log for
  a pair, and whether an operation is a read that finds the entry of a given trip
  expired (and so evicts it).
\<close>

definition observed :: "logger_state \<Rightarrow> string \<Rightarrow> string set" where
  "observed s trip_id = (case vehicle_arrivals s trip_id of None \<Rightarrow> {} | Some ids \<Rightarrow> ids)"

definition records_for :: "logger_state \<Rightarrow> string \<Rightarrow> string \<Rightarrow> log_row list" where
  "records_for s trip_id stop_id =
     [r \<leftarrow> arrival_log s. lr_trip_id r = trip_id \<and> lr_stop_id r = stop_id]"

fun evicts :: "logger_state \<Rightarrow> string \<Rightarrow> observer_op \<Rightarrow> bool" where
  "evicts s trip (Read trip_id now) =
     (trip_id = trip \<and>
      (case vehicle_latest_arrival s trip_id of
         None \<Rightarrow> False
       | Some arrival \<Rightarrow> now - last_seen arrival > CACHE_TTL_SECONDS))"
| "evicts s trip _ = False"

fun eviction_free :: "logger_config \<Rightarrow> string \<Rightarrow> logger_state \<Rightarrow> observer_op list \<Rightarrow> bool" where
  "eviction_free cfg trip s [] = True"
| "eviction_free cfg trip s (op # ops) =
     (\<not> evicts s trip op \<and> eviction_free cfg trip (observer_step cfg s op) ops)"

text \<open>
  The invariant behind the deduplication, relative to a start state \<open>s0\<close>: for the pair
  \<open>(t, st)\<close> the log has gained at most one record, a gained record means that \<open>st\<close> is in
  the observed set of \<open>t\<close>, and that set has not lost an element.
\<close>

definition dedup_inv :: "logger_state \<Rightarrow> string \<Rightarrow> string \<Rightarrow> logger_state \<Rightarrow> bool" where
  "dedup_inv s0 t st s \<longleftrightarrow>
     length (records_for s0 t st) \<le> length (records_for s t st)
   \<and> length (records_for s t st) \<le> length (records_for s0 t st) + 1
   \<and> (length (records_for s t st) = length (records_for s0 t st) + 1 \<longrightarrow> st \<in> observed s t)
   \<and> observed s0 t \<subseteq> observed s t"

text \<open>
  A small deployment used in the examples: one stop \<open>S\<close> at the coordinate origin, one
  trip \<open>T\<close> calling there, a feed with the vehicle of \<open>T\<close> standing at the stop, and the
  cache as the first tick at instant 0 leaves it.
\<close>

definition example_config :: logger_config where
  "example_config =
     \<lparr>lc_stops = [''S'' \<mapsto> \<lparr>sc_name = ''Stop'', sc_lat = 0, sc_lon = 0\<rparr>],
      lc_trip_stops = [''T'' \<mapsto> [\<lparr>si_stop_id = ''S'', si_arrival_time = ''10:00:00'',
                                  si_stop_sequence = ''1''\<rparr>]],
      lc_parse_gtfs_time = (\<lambda>time_str trip_id now. None)\<rparr>"

definition example_feed :: "feed_entity list" where
  "example_feed =
     [\<lparr>fe_has_vehicle = True, fe_has_position = True, fe_trip_id = Some ''T'',
       fe_route_id = None, fe_latitude = 0, fe_longitude = 0\<rparr>]"

definition example_entry :: arrival_entry where
  "example_entry =
     \<lparr>ai_stop_id = ''S'', ai_stop_name = ''Stop'', ai_stop_sequence = ''1'',
      ai_timestamp = 0, ai_delay_seconds = None, ai_route_id = None,
      ai_trip_id = ''T'', last_seen = 0\<rparr>"

definition example_cached :: logger_state where
  "example_cached =
     \<lparr>vehicle_arrivals = [''T'' \<mapsto> {''S''}],
      vehicle_latest_arrival = [''T'' \<mapsto> example_entry],
      arrival_log = [\<lparr>lr_now = 0, lr_trip_id = ''T'', lr_route_id = None,
                      lr_stop_id = ''S'', lr_stop_name = ''Stop'',
                      lr_scheduled_arrival = None, lr_delay_seconds = None\<rparr>]\<rparr>"

section \<open>Routing engine: timetable, transfer graph and nearby stops\<close>

text \<open>
  Source: \<^verbatim>\<open>services/raptor_service.py\<close>, with the in-memory timetable of
  \<^verbatim>\<open>services/timetables.py\<close>.  A dictionary whose iteration order matters is an
  association list in insertion order.
\<close>

definition MAX_WALKING_DISTANCE_M :: real where "MAX_WALKING_DISTANCE_M = 500"
definition WALKING_SPEED_MS :: real where "WALKING_SPEED_MS = 1.4"
definition MAX_RESULTS :: nat where "MAX_RESULTS = 5"
definition MAX_TRANSFERS :: nat where "MAX_TRANSFERS = 3"
definition SEARCH_WINDOW_HOURS :: int where "SEARCH_WINDOW_HOURS = 4"
definition TRANSFER_TIME :: int where "TRANSFER_TIME = 180"

record stop_rec =
  sr_stop_name :: string
  sr_lat :: real
  sr_lon :: real

record trip_rec =
  trip_route_id :: string

record rst =
  rst_stop_id :: string
  rst_stop_sequence :: int
  rst_arrival_time :: gtfs_time
  rst_departure_time :: gtfs_time

record timetable =
  tt_stops :: "(string \<times> stop_rec) list"
  tt_trips :: "string \<rightharpoonup> trip_rec"
  tt_stop_times_by_trip :: "(string \<times> rst list) list"

text \<open>
  Lines 33--67, \<^verbatim>\<open>_build_transfer_graph\<close>.  \<^verbatim>\<open>transfers\<close> is a \<^verbatim>\<open>defaultdict(list)\<close>: a key
  is present exactly when its list is not empty, so it is a function to lists with \<open>[]\<close>
  for an absent key.  \<open>transfer_pair\<close> is the body of the inner loop for the stops at
  positions \<open>i < j\<close>.
\<close>

type_synonym transfer_graph = "string \<Rightarrow> (string \<times> int) list"

definition add_transfer :: "transfer_graph \<Rightarrow> string \<Rightarrow> string \<times> int \<Rightarrow> transfer_graph" where
  "add_transfer transfers k v = transfers(k := transfers k @ [v])"

definition transfer_pair ::
  "string \<times> stop_rec \<Rightarrow> transfer_graph \<Rightarrow> string \<times> stop_rec \<Rightarrow> transfer_graph" where
  "transfer_pair a transfers b =
     (case a of (id1, s1) \<Rightarrow> case b of (id2, s2) \<Rightarrow>
        if \<bar>sr_lat s1 - sr_lat s2\<bar> > 0.01 then transfers
        else if \<bar>sr_lon s1 - sr_lon s2\<bar> > 0.01 then transfers
        else
          let dist = haversine (sr_lat s1) (sr_lon s1) (sr_lat s2) (sr_lon s2)
          in if dist \<le> MAX_WALKING_DISTANCE_M then
               let walk_time = py_int (dist / WALKING_SPEED_MS)
               in add_transfer (add_transfer transfers id1 (id2, walk_time)) id2 (id1, walk_time)
             else transfers)"

fun build_from :: "transfer_graph \<Rightarrow> (string \<times> stop_rec) list \<Rightarrow> transfer_graph" where
  "build_from transfers [] = transfers"
| "build_from transfers (a # rest) = build_from (foldl (transfer_pair a) transfers rest) rest"

definition build_transfer_graph :: "timetable \<Rightarrow> transfer_graph" where
  "build_transfer_graph tt = build_from (\<lambda>stop_id. []) (tt_stops tt)"

text \<open>
  The service object: the timetable and the graph built from it by the constructor
  (lines 14--20).  Two things that Python fixes per process are parameters: the hash of
  a stop pattern (line 217) and the order in which a set of stop ids is iterated (lines
  296 and 318).
\<close>

record raptor_service =
  rs_timetable :: timetable
  rs_transfers :: transfer_graph
  rs_hash :: "string list \<Rightarrow> int"
  rs_set_order :: "string list \<Rightarrow> string list"

definition RaptorService ::
  "timetable \<Rightarrow> (string list \<Rightarrow> int) \<Rightarrow> (string list \<Rightarrow> string list) \<Rightarrow> raptor_service" where
  "RaptorService tt hash_fn set_order =
     \<lparr>rs_timetable = tt, rs_transfers = build_transfer_graph tt,
      rs_hash = hash_fn, rs_set_order = set_order\<rparr>"

text \<open>Lines 69--84, \<^verbatim>\<open>find_nearby_stops\<close>; Python's sort is stable, as \<open>sort_key\<close> is.\<close>

record nearby =
  nb_stop_id :: string
  nb_stop :: stop_rec
  nb_distance :: real
  nb_walking_time :: int

definition nearby_of :: "real \<Rightarrow> real \<Rightarrow> real \<Rightarrow> string \<times> stop_rec \<Rightarrow> nearby list" where
  "nearby_of lat0 lon0 max_distance item =
     (case item of (stop_id, stop) \<Rightarrow>
        let stop_lat = sr_lat stop; stop_lon = sr_lon stop;
            distance = haversine lat0 lon0 stop_lat stop_lon
        in if distance \<le> max_distance then
             [\<lparr>nb_stop_id = stop_id, nb_stop = stop, nb_distance = distance,
               nb_walking_time = py_int (distance / WALKING_SPEED_MS)\<rparr>]
           else [])"

definition find_nearby_stops :: "raptor_service \<Rightarrow> real \<Rightarrow> real \<Rightarrow> real \<Rightarrow> nearby list" where
  "find_nearby_stops svc lat0 lon0 max_distance =
     take 15 (sort_key nb_distance
                (concat (map (nearby_of lat0 lon0 max_distance) (tt_stops (rs_timetable svc)))))"

section \<open>Routing engine: legs and the filters on itineraries\<close>

text \<open>
  A leg is a dictionary with \<^verbatim>\<open>"type"\<close> either \<^verbatim>\<open>"walk"\<close> or \<^verbatim>\<open>"transit"\<close>.  The end
  points of a walk carry a stop id and name when they are stops and none when they are
  the coordinates of the query.
\<close>

record place =
  pl_lat :: real
  pl_lon :: real
  pl_stop_id :: "string option"
  pl_stop_name :: "string option"

record walk_leg =
  wl_from :: place
  wl_to :: place
  distance_m :: real
  duration_seconds :: int

record transit_leg =
  tl_route_id :: string
  tl_trip_id :: string
  tl_from_stop_id :: string
  tl_to_stop_id :: string
  tl_from_stop_name :: string
  tl_to_stop_name :: string
  tl_departure_time :: gtfs_time
  tl_arrival_time :: gtfs_time

datatype leg = Walk walk_leg | Transit transit_leg

fun is_walk :: "leg \<Rightarrow> bool" where
  "is_walk (Walk w) = True"
| "is_walk (Transit t) = False"

text \<open>\<^verbatim>\<open>[leg for leg in legs if leg["type"] == "transit"]\<close> (lines 93 and 101).\<close>

fun transit_legs :: "leg list \<Rightarrow> transit_leg list" where
  "transit_legs [] = []"
| "transit_legs (Walk w # legs) = transit_legs legs"
| "transit_legs (Transit t # legs) = t # transit_legs legs"

text \<open>Lines 91--97, \<^verbatim>\<open>has_duplicate_route_transfer\<close>.\<close>

fun adjacent_same_route :: "transit_leg list \<Rightarrow> bool" where
  "adjacent_same_route (a # b # rest) = (tl_route_id a = tl_route_id b \<or> adjacent_same_route (b # rest))"
| "adjacent_same_route rest = False"

definition has_duplicate_route_transfer :: "leg list \<Rightarrow> bool" where
  "has_duplicate_route_transfer legs = adjacent_same_route (transit_legs legs)"

text \<open>Lines 99--102, \<^verbatim>\<open>_get_transit_signature\<close>.\<close>

definition get_transit_signature :: "leg list \<Rightarrow> (string \<times> string \<times> string) list" where
  "get_transit_signature legs =
     map (\<lambda>leg. (tl_route_id leg, tl_from_stop_id leg, tl_to_stop_id leg)) (transit_legs legs)"

text \<open>
  Lines 123--176, \<^verbatim>\<open>_merge_consecutive_walk_legs\<close>.  \<open>split_walks\<close> is the inner loop that
  collects the walks following position \<open>i\<close>; \<^verbatim>\<open>sum\<close> over the distances is the sum of
  reals.
\<close>

fun split_walks :: "leg list \<Rightarrow> walk_leg list \<times> leg list" where
  "split_walks (Walk w # legs) = (case split_walks legs of (ws, rest) \<Rightarrow> (w # ws, rest))"
| "split_walks legs = ([], legs)"

definition merged_leg :: "walk_leg list \<Rightarrow> walk_leg" where
  "merged_leg consecutive_walks =
     (let first_walk = hd consecutive_walks;
          last_walk = last consecutive_walks;
          total_distance = sum_list (map distance_m consecutive_walks);
          total_duration = sum_list (map duration_seconds consecutive_walks)
      in \<lparr>wl_from = wl_from first_walk, wl_to = wl_to last_walk,
          distance_m = total_distance, duration_seconds = total_duration\<rparr>)"

lemma split_walks_length: "length (snd (split_walks legs)) \<le> length legs"
  by (induction legs rule: split_walks.induct) (auto split: prod.splits)

function merge_consecutive_walk_legs :: "leg list \<Rightarrow> leg list" where
  "merge_consecutive_walk_legs [] = []"
| "merge_consecutive_walk_legs (Transit t # legs) = Transit t # merge_consecutive_walk_legs legs"
| "merge_consecutive_walk_legs (Walk w # legs) =
     (let consecutive_walks = w # fst (split_walks legs)
      in if length consecutive_walks \<ge> 2
         then Walk (merged_leg consecutive_walks) # merge_consecutive_walk_legs (snd (split_walks legs))
         else Walk w # merge_consecutive_walk_legs (snd (split_walks legs)))"
  by pat_completeness auto
termination
  by (relation "measure length") (auto simp: le_imp_less_Suc split_walks_length)

text \<open>
  The itineraries of lines 427--432 and the cleaned ones of lines 447--452, which drop
  \<^verbatim>\<open>transfer_count\<close>.
\<close>

record route_result =
  rr_dest_stop :: string
  rr_total_time :: int
  rr_legs :: "leg list"

record temp_result = route_result +
  tr_transfer_count :: nat

text \<open>
  Lines 104--121, \<^verbatim>\<open>_filter_duplicate_routes_different_walk\<close>.  The key of \<^verbatim>\<open>min\<close> is the
  duration of the first walk leg (\<^verbatim>\<open>next\<close> over the walk legs, with default 0), and
  \<^verbatim>\<open>min\<close> returns the first element whose key is minimal.  A group of the dictionary is
  never empty.
\<close>

fun first_walk_duration :: "leg list \<Rightarrow> int" where
  "first_walk_duration [] = 0"
| "first_walk_duration (Walk w # rest) = duration_seconds w"
| "first_walk_duration (Transit t # rest) = first_walk_duration rest"

fun py_min_by :: "('a \<Rightarrow> int) \<Rightarrow> 'a \<Rightarrow> 'a list \<Rightarrow> 'a" where
  "py_min_by key best [] = best"
| "py_min_by key best (x # xs) = py_min_by key (if key x < key best then x else best) xs"

fun min_walk_result :: "temp_result list \<Rightarrow> temp_result list" where
  "min_walk_result [] = []"
| "min_walk_result [r] = [r]"
| "min_walk_result (r # others) = [py_min_by (\<lambda>r. first_walk_duration (rr_legs r)) r others]"

definition transit_groups ::
  "temp_result list \<Rightarrow> ((string \<times> string \<times> string) list \<times> temp_result list) list" where
  "transit_groups results =
     foldl (\<lambda>groups result. dict_append groups (get_transit_signature (rr_legs result)) result)
       [] results"

definition filter_duplicate_routes_different_walk :: "temp_result list \<Rightarrow> temp_result list" where
  "filter_duplicate_routes_different_walk results =
     concat (map (\<lambda>(signature, grp). min_walk_result grp) (transit_groups results))"

text \<open>
  Lines 434--458, the end of \<^verbatim>\<open>run\<close>: the pruning against the fastest itinerary and the
  least number of transit legs, the duplicate filter, the cut to \<^verbatim>\<open>MAX_RESULTS\<close> and the
  cleaned results.
\<close>

fun py_min :: "int list \<Rightarrow> int" where
  "py_min [] = 0"
| "py_min (x # xs) = foldl min x xs"

fun py_min_nat :: "nat list \<Rightarrow> nat" where
  "py_min_nat [] = 0"
| "py_min_nat (x # xs) = foldl min x xs"

definition prune :: "temp_result list \<Rightarrow> temp_result list" where
  "prune temp_results =
     (let fastest_time = py_min (map rr_total_time temp_results);
          threshold_time = fastest_time + 60;
          min_transfers = py_min_nat (map tr_transfer_count temp_results)
      in [result \<leftarrow> temp_results.
            rr_total_time result \<le> threshold_time \<or> tr_transfer_count result \<le> min_transfers])"

definition clean_result :: "temp_result \<Rightarrow> route_result" where
  "clean_result result =
     \<lparr>rr_dest_stop = rr_dest_stop result, rr_total_time = rr_total_time result,
      rr_legs = rr_legs result\<rparr>"

definition select_results :: "temp_result list \<Rightarrow> route_result list" where
  "select_results temp_results =
     (if temp_results \<noteq> [] then
        let results = prune temp_results;
            results = filter_duplicate_routes_different_walk results;
            results = take MAX_RESULTS results
        in map clean_result results
      else [])"

section \<open>Properties of the outlier filter\<close>

lemma q_idx_bounds:
  "delays \<noteq> [] \<Longrightarrow> q1_idx (sort delays) \<le> q3_idx (sort delays) \<and> q3_idx (sort delays) < length (sort delays)"
  by (cases delays) (auto simp: q1_idx_def q3_idx_def)

lemma q1_le_q3:
  assumes "delays \<noteq> []"
  shows "q1_of delays \<le> q3_of delays"
  using q_idx_bounds [OF assms]
  by (simp add: q1_of_def q3_of_def Let_def sorted_nth_mono)

lemma q1_in_set: "delays \<noteq> [] \<Longrightarrow> q1_of delays \<in> set delays"
proof -
  assume ne: "delays \<noteq> []"
  then have "q1_idx (sort delays) < length (sort delays)"
    using q_idx_bounds [of delays] by linarith
  then have "sort delays ! q1_idx (sort delays) \<in> set (sort delays)"
    by (rule nth_mem)
  then show ?thesis by (simp add: q1_of_def Let_def)
qed

lemma q1_within_bounds:
  assumes "delays \<noteq> []"
  shows "lower_bound delays \<le> q1_of delays \<and> q1_of delays \<le> upper_bound delays"
  using q1_le_q3 [OF assms]
  by (simp add: lower_bound_def upper_bound_def IQR_MULTIPLIER_def Let_def)

lemma filtered_delays_nonempty: "delays \<noteq> [] \<Longrightarrow> filtered_delays delays \<noteq> []"
proof -
  assume ne: "delays \<noteq> []"
  have "q1_of delays \<in> set (filtered_delays delays)"
    using q1_in_set [OF ne] q1_within_bounds [OF ne] by (simp add: filtered_delays_def)
  then show ?thesis by auto
qed

lemma filter_group_key:
  "filter_group delay_stats (key, delays) key = Some (iqr_step delays)"
proof (cases "length delays < 4")
  case True
  then show ?thesis by (simp add: filter_group_def iqr_step_def)
next
  case False
  then have "delays \<noteq> []" by auto
  then show ?thesis using False filtered_delays_nonempty [of delays]
    by (simp add: filter_group_def iqr_step_def)
qed

lemma filter_group_other:
  "k \<noteq> fst kd \<Longrightarrow> filter_group delay_stats kd k = delay_stats k"
  by (cases kd) (simp add: filter_group_def)

lemma second_pass_other:
  "k \<notin> fst ` set raw_delays \<Longrightarrow> second_pass raw_delays delay_stats k = delay_stats k"
  unfolding second_pass_def
proof (induction raw_delays arbitrary: delay_stats)
  case Nil
  then show ?case by simp
next
  case (Cons kd rest)
  then show ?case by (simp add: filter_group_other)
qed

lemma second_pass_key:
  "distinct (map fst raw_delays) \<Longrightarrow> (key, delays) \<in> set raw_delays \<Longrightarrow>
   second_pass raw_delays delay_stats key = Some (iqr_step delays)"
proof (induction raw_delays arbitrary: delay_stats)
  case Nil
  then show ?case by simp
next
  case (Cons kd rest)
  show ?case
  proof (cases "kd = (key, delays)")
    case True
    with Cons.prems have "key \<notin> fst ` set rest" by auto
    then have "second_pass rest (filter_group delay_stats kd) key = filter_group delay_stats kd key"
      by (rule second_pass_other)
    then show ?thesis using True by (simp add: second_pass_def filter_group_key)
  next
    case False
    with Cons.prems have "(key, delays) \<in> set rest" "distinct (map fst rest)" by auto
    then have "second_pass rest (filter_group delay_stats kd) key = Some (iqr_step delays)"
      using Cons.IH by blast
    then show ?thesis by (simp add: second_pass_def)
  qed
qed


text \<open>
  Claim C2.  After the second pass, every (trip, stop) group of the raw delays is stored:
  a group of fewer than four samples as it is, a group of four or more samples reduced to
  exactly the samples \<open>d\<close> with \<open>Q1 - 3 * IQR \<le> d \<le> Q3 + 3 * IQR\<close>, in their original order,
  where \<open>Q1\<close> and \<open>Q3\<close> are the sorted samples at the indices \<open>n div 4\<close> and \<open>3 * n div 4\<close>.
\<close>

theorem iqr_filter_contract:
  assumes "distinct (map fst raw_delays)" and "(key, delays) \<in> set raw_delays"
  shows "second_pass raw_delays delay_stats key =
     Some (if length delays < 4 then delays
           else [d \<leftarrow> delays.
                   sort delays ! (length delays div 4)
                     - 3 * (sort delays ! (3 * length delays div 4) - sort delays ! (length delays div 4)) \<le> d
                 \<and> d \<le> sort delays ! (3 * length delays div 4)
                     + 3 * (sort delays ! (3 * length delays div 4) - sort delays ! (length delays div 4))])"
  using second_pass_key [OF assms, of delay_stats]
  by (simp add: iqr_step_def filtered_delays_def lower_bound_def upper_bound_def q1_of_def
      q3_of_def q1_idx_def q3_idx_def IQR_MULTIPLIER_def Let_def)

theorem iqr_filter_contract_witness:
  "distinct (map fst [((''T'', ''S''), [- 30, 0, 60, 90, 120, 180, 3600 :: int]),
                      ((''T'', ''U''), [500, 0, - 500])])
   \<and> ((''T'', ''S''), [- 30, 0, 60, 90, 120, 180, 3600]) \<in>
        set [((''T'', ''S''), [- 30, 0, 60, 90, 120, 180, 3600 :: int]),
             ((''T'', ''U''), [500, 0, - 500])]
   \<and> second_pass [((''T'', ''S''), [- 30, 0, 60, 90, 120, 180, 3600]),
                   ((''T'', ''U''), [500, 0, - 500])] Map.empty (''T'', ''S'')
       = Some [- 30, 0, 60, 90, 120, 180]"
proof -
  have d: "distinct (map fst [((''T'', ''S''), [- 30, 0, 60, 90, 120, 180, 3600 :: int]),
                              ((''T'', ''U''), [500, 0, - 500])])"
    by simp
  have m: "((''T'', ''S''), [- 30, 0, 60, 90, 120, 180, 3600]) \<in>
        set [((''T'', ''S''), [- 30, 0, 60, 90, 120, 180, 3600 :: int]),
             ((''T'', ''U''), [500, 0, - 500])]"
    by simp
  show ?thesis using d m iqr_filter_contract [OF d m, of Map.empty] by simp
qed

text \<open>
  Claim C9, as stated, fails: filtering \<open>[-100, 0, 10, 10, 10]\<close> keeps \<open>[0, 10, 10, 10]\<close>
  (Q1 = 0, Q3 = 10, bounds \<open>[-30, 40]\<close>), and filtering that group again drops the \<open>0\<close>
  (Q1 = Q3 = 10, bounds \<open>[10, 10]\<close>).
\<close>

theorem iqr_filter_not_idempotent:
  "second_pass [((''T'', ''S''), [- 100, 0, 10, 10, 10])] Map.empty (''T'', ''S'')
     = Some [0, 10, 10, 10]
   \<and> second_pass [((''T'', ''S''), [0, 10, 10, 10])] Map.empty (''T'', ''S'')
     = Some [10, 10, 10]"
  by (simp add: second_pass_def filter_group_def filtered_delays_def lower_bound_def
      upper_bound_def q1_of_def q3_of_def q1_idx_def q3_idx_def IQR_MULTIPLIER_def Let_def)

text \<open>
  Claim C9, amended.  Filtering a filtered group again never adds a sample, and it returns
  the group unchanged whenever the filtered group has fewer than four samples or its own
  bounds \<open>Q1 - 3 * IQR\<close> and \<open>Q3 + 3 * IQR\<close> are no tighter than those of the group it
  came from (in particular when its quartiles are the same).
\<close>

theorem iqr_refilter_stable:
  assumes "second_pass [(key, delays)] delay_stats key = Some kept"
  shows "\<exists>kept'. second_pass [(key, kept)] delay_stats' key = Some kept'
           \<and> set kept' \<subseteq> set kept \<and> length kept' \<le> length kept
           \<and> (length kept < 4
                \<or> (lower_bound kept \<le> lower_bound delays \<and> upper_bound delays \<le> upper_bound kept)
                \<longrightarrow> kept' = kept)"
proof -
  have kept: "kept = iqr_step delays"
    using assms second_pass_key [of "[(key, delays)]" key delays delay_stats] by simp
  have again: "second_pass [(key, kept)] delay_stats' key = Some (iqr_step kept)"
    using second_pass_key [of "[(key, kept)]" key kept delay_stats'] by simp
  have sub: "set (iqr_step kept) \<subseteq> set kept \<and> length (iqr_step kept) \<le> length kept"
    by (simp add: iqr_step_def filtered_delays_def)
  have stable: "iqr_step kept = kept"
    if "length kept < 4
        \<or> (lower_bound kept \<le> lower_bound delays \<and> upper_bound delays \<le> upper_bound kept)"
  proof (cases "length kept < 4")
    case True
    then show ?thesis by (simp add: iqr_step_def)
  next
    case False
    with that have b: "lower_bound kept \<le> lower_bound delays" "upper_bound delays \<le> upper_bound kept"
      by simp_all
    have "length (filtered_delays delays) \<le> length delays"
      by (simp add: filtered_delays_def)
    then have "\<not> length delays < 4"
      using False kept by (auto simp: iqr_step_def split: if_splits)
    then have k: "kept = filtered_delays delays" using kept by (simp add: iqr_step_def)
    have "\<forall>d \<in> set kept. lower_bound kept \<le> d \<and> d \<le> upper_bound kept"
      using b by (auto simp: k [unfolded filtered_delays_def])
    then have "filtered_delays kept = kept"
      by (simp add: filtered_delays_def [of kept])
    then show ?thesis using False by (simp add: iqr_step_def)
  qed
  show ?thesis using again sub stable by blast
qed

theorem iqr_refilter_stable_witness:
  "second_pass [((''T'', ''S''), [0, 1, 2, 3, 100])] Map.empty (''T'', ''S'') = Some [0, 1, 2, 3]
   \<and> lower_bound [0, 1, 2, 3] \<le> lower_bound [0, 1, 2, 3, 100]
   \<and> upper_bound [0, 1, 2, 3, 100] \<le> upper_bound [0, 1, 2, 3]
   \<and> second_pass [((''T'', ''S''), [0, 1, 2, 3])] Map.empty (''T'', ''S'') = Some [0, 1, 2, 3]"
proof -
  have first: "second_pass [((''T'', ''S''), [0, 1, 2, 3, 100])] Map.empty (''T'', ''S'')
     = Some [0, 1, 2, 3]"
    by (simp add: second_pass_def filter_group_def filtered_delays_def lower_bound_def
        upper_bound_def q1_of_def q3_of_def q1_idx_def q3_idx_def IQR_MULTIPLIER_def Let_def)
  have b: "lower_bound [0, 1, 2, 3] \<le> lower_bound [0, 1, 2, 3, 100]"
    "upper_bound [0, 1, 2, 3, 100] \<le> upper_bound [0, 1, 2, 3]"
    by (simp_all add: lower_bound_def upper_bound_def q1_of_def q3_of_def q1_idx_def q3_idx_def
        IQR_MULTIPLIER_def Let_def)
  from iqr_refilter_stable [OF first, of Map.empty] b
  have "second_pass [((''T'', ''S''), [0, 1, 2, 3])] Map.empty (''T'', ''S'') = Some [0, 1, 2, 3]"
    by auto
  with first b show ?thesis by simp
qed

section \<open>Properties of the monotonic progression\<close>

lemma hms_recompose: "x div 3600 * 3600 + x mod 3600 div 60 * 60 + x mod 60 = (x::nat)"
proof -
  have a: "x mod 3600 mod 60 = x mod 60"
    by (simp add: mod_mod_cancel)
  have b: "x mod 3600 div 60 * 60 + x mod 3600 mod 60 = x mod 3600"
    by (rule div_mult_mod_eq)
  have c: "x div 3600 * 3600 + x mod 3600 = x"
    by (rule div_mult_mod_eq)
  from a b c show ?thesis by linarith
qed

lemma format_time_roundtrip: "time_to_seconds (format_time x) = Inr x"
  using hms_recompose [of x] by (simp add: format_time_def)

lemma arrival_seconds_format: "arrival_seconds (r\<lparr>arrival_time := format_time x, departure_time := d\<rparr>) = int x"
proof -
  have "int (x div 3600 * 3600 + x mod 3600 div 60 * 60 + x mod 60) = int x"
    by (simp only: hms_recompose)
  then show ?thesis by (simp add: arrival_seconds_def format_time_def)
qed

lemma arrival_seconds_nonneg: "0 \<le> arrival_seconds r"
  by (simp add: arrival_seconds_def split: gtfs_time.splits)

lemma spec_enforce_length: "length (spec_enforce prev cs) = length cs"
  by (induction cs arbitrary: prev) (simp_all add: Let_def)

lemma spec_enforce_bounds:
  "(\<And>p. prev = Some p \<Longrightarrow> 0 \<le> p) \<Longrightarrow> x \<in> set (spec_enforce prev cs) \<Longrightarrow>
   0 \<le> x \<and> (\<forall>p. prev = Some p \<longrightarrow> p < x)"
proof (induction cs arbitrary: prev)
  case Nil
  then show ?case by simp
next
  case (Cons c cs)
  define realistic where
    "realistic = (case prev of None \<Rightarrow> max 0 c | Some p \<Rightarrow> if max 0 c \<le> p then p + 60 else max 0 c)"
  have r0: "0 \<le> realistic" and rp: "\<And>p. prev = Some p \<Longrightarrow> p < realistic"
    using Cons.prems(1) by (auto simp: realistic_def split: option.splits)
  from Cons.prems(2) have "x = realistic \<or> x \<in> set (spec_enforce (Some realistic) cs)"
    by (simp add: Let_def realistic_def)
  then show ?case
  proof
    assume "x = realistic"
    then show ?thesis using r0 rp by simp
  next
    assume "x \<in> set (spec_enforce (Some realistic) cs)"
    then have "0 \<le> x \<and> (\<forall>p. Some realistic = Some p \<longrightarrow> p < x)"
      using Cons.IH [of "Some realistic"] r0 by simp
    then show ?thesis using rp by force
  qed
qed

lemma spec_enforce_strict:
  "(\<And>p. prev = Some p \<Longrightarrow> 0 \<le> p) \<Longrightarrow> sorted_wrt (<) (spec_enforce prev cs)"
proof (induction cs arbitrary: prev)
  case Nil
  then show ?case by simp
next
  case (Cons c cs)
  define realistic where
    "realistic = (case prev of None \<Rightarrow> max 0 c | Some p \<Rightarrow> if max 0 c \<le> p then p + 60 else max 0 c)"
  have r0: "0 \<le> realistic"
    using Cons.prems(1) by (auto simp: realistic_def split: option.splits)
  have tail: "sorted_wrt (<) (spec_enforce (Some realistic) cs)"
    using Cons.IH [of "Some realistic"] r0 by simp
  have "\<forall>x\<in>set (spec_enforce (Some realistic) cs). realistic < x"
    using spec_enforce_bounds [of "Some realistic" _ cs] r0 by simp
  then show ?case using tail by (simp add: Let_def realistic_def)
qed

lemma spec_enforce_step:
  "(\<And>p. prev = Some p \<Longrightarrow> 0 \<le> p) \<Longrightarrow> Suc i < length cs \<Longrightarrow>
   spec_enforce prev cs ! Suc i =
     (if max 0 (cs ! Suc i) \<le> spec_enforce prev cs ! i then spec_enforce prev cs ! i + 60
      else max 0 (cs ! Suc i))"
proof (induction cs arbitrary: prev i)
  case Nil
  then show ?case by simp
next
  case (Cons c cs)
  define realistic where
    "realistic = (case prev of None \<Rightarrow> max 0 c | Some p \<Rightarrow> if max 0 c \<le> p then p + 60 else max 0 c)"
  have r0: "0 \<le> realistic"
    using Cons.prems(1) by (auto simp: realistic_def split: option.splits)
  have unfold: "spec_enforce prev (c # cs) = realistic # spec_enforce (Some realistic) cs"
    by (simp add: Let_def realistic_def)
  show ?case
  proof (cases i)
    case 0
    with Cons.prems(2) obtain d ds where cs: "cs = d # ds" by (cases cs) auto
    show ?thesis using 0 by (simp add: unfold cs Let_def)
  next
    case (Suc j)
    with Cons.prems(2) have "Suc j < length cs" by simp
    then have "spec_enforce (Some realistic) cs ! Suc j =
      (if max 0 (cs ! Suc j) \<le> spec_enforce (Some realistic) cs ! j
       then spec_enforce (Some realistic) cs ! j + 60 else max 0 (cs ! Suc j))"
      using Cons.IH [of "Some realistic" j] r0 by simp
    then show ?thesis unfolding unfold Suc by (simp only: nth_Cons_Suc)
  qed
qed

lemma process_stop_blank:
  "arrival_time st = Blank \<Longrightarrow> process_stop delay_stats trip_id prev st = Inr (st, prev)"
  by (simp add: process_stop_def)

lemma adjusted_arrival_seconds:
  assumes "arrival_time st = HMS h m s"
    and "avg = calculate_average_delay delay_stats trip_id (st_stop_id st)"
  shows "time_to_seconds (if avg \<noteq> 0 then adjust_gtfs_time (HMS h m s) avg else HMS h m s)
           = Inr (nat (max 0 (candidate delay_stats trip_id st)))"
proof -
  have cand: "candidate delay_stats trip_id st = int (h * 3600 + m * 60 + s) + avg"
    by (simp add: candidate_def arrival_seconds_def assms)
  show ?thesis
  proof (cases "avg = 0")
    case True
    have "nat (int h * 3600 + int m * 60 + int s) = h * 3600 + m * 60 + s" by linarith
    then show ?thesis using True by (simp add: cand)
  next
    case False
    have "adjust_gtfs_time (HMS h m s) avg = format_time (nat (max 0 (candidate delay_stats trip_id st)))"
      by (simp add: cand max_def Let_def)
    then show ?thesis using False by (simp add: format_time_roundtrip del: adjust_gtfs_time.simps)
  qed
qed

lemma process_stop_timed:
  assumes "arrival_time st = HMS h m s"
  shows "\<exists>adj cur. process_stop delay_stats trip_id prev st
            = Inr (st\<lparr>arrival_time := adj, departure_time := adj\<rparr>, Some cur)
          \<and> time_to_seconds adj = Inr cur
          \<and> int cur = (case map_option int prev of
                None \<Rightarrow> max 0 (candidate delay_stats trip_id st)
              | Some p \<Rightarrow> if max 0 (candidate delay_stats trip_id st) \<le> p then p + 60
                          else max 0 (candidate delay_stats trip_id st))"
proof -
  define avg where "avg = calculate_average_delay delay_stats trip_id (st_stop_id st)"
  define adjusted where
    "adjusted = (if avg \<noteq> 0 then adjust_gtfs_time (HMS h m s) avg else HMS h m s)"
  define c where "c = nat (max 0 (candidate delay_stats trip_id st))"
  have secs: "time_to_seconds adjusted = Inr c"
    unfolding adjusted_def c_def using adjusted_arrival_seconds [OF assms avg_def] .
  have body: "process_stop delay_stats trip_id prev st =
      (case prev of
         None \<Rightarrow> Inr (st\<lparr>arrival_time := adjusted, departure_time := adjusted\<rparr>, Some c)
       | Some p \<Rightarrow>
           if c \<le> p then Inr (st\<lparr>arrival_time := format_time (p + 60),
                                   departure_time := format_time (p + 60)\<rparr>, Some (p + 60))
           else Inr (st\<lparr>arrival_time := adjusted, departure_time := adjusted\<rparr>, Some c))"
    using secs unfolding process_stop_def Let_def adjusted_def avg_def
    by (simp only: assms gtfs_time.distinct if_False sum.case)
  have ic: "int c = max 0 (candidate delay_stats trip_id st)" by (simp add: c_def)
  let ?goal = "\<lambda>adj cur. process_stop delay_stats trip_id prev st
            = Inr (st\<lparr>arrival_time := adj, departure_time := adj\<rparr>, Some cur)
          \<and> time_to_seconds adj = Inr cur
          \<and> int cur = (case map_option int prev of
                None \<Rightarrow> max 0 (candidate delay_stats trip_id st)
              | Some p \<Rightarrow> if max 0 (candidate delay_stats trip_id st) \<le> p then p + 60
                          else max 0 (candidate delay_stats trip_id st))"
  show ?thesis
  proof (cases prev)
    case None
    then have "?goal adjusted c" using body secs ic by simp
    then show ?thesis by blast
  next
    case (Some p)
    show ?thesis
    proof (cases "c \<le> p")
      case True
      then have "process_stop delay_stats trip_id prev st
          = Inr (st\<lparr>arrival_time := format_time (p + 60),
                     departure_time := format_time (p + 60)\<rparr>, Some (p + 60))"
        using body Some by simp
      moreover have "max 0 (candidate delay_stats trip_id st) \<le> int p"
        using True ic by linarith
      ultimately have "?goal (format_time (p + 60)) (p + 60)"
        using Some format_time_roundtrip [of "p + 60"] by simp
      then show ?thesis by blast
    next
      case False
      then have "process_stop delay_stats trip_id prev st
          = Inr (st\<lparr>arrival_time := adjusted, departure_time := adjusted\<rparr>, Some c)"
        using body Some by simp
      moreover have "\<not> max 0 (candidate delay_stats trip_id st) \<le> int p"
        using False ic by linarith
      ultimately have "?goal adjusted c" using Some secs ic by simp
      then show ?thesis by blast
    qed
  qed
qed

lemma arrival_seconds_of_time:
  "time_to_seconds adj = Inr cur \<Longrightarrow>
   arrival_seconds (st\<lparr>arrival_time := adj, departure_time := d\<rparr>) = int cur \<and> adj \<noteq> Blank"
  by (cases adj) (auto simp: arrival_seconds_def)

lemma process_stops_refines:
  "\<exists>out. process_stops delay_stats trip_id prev stops = Inr out
     \<and> map st_stop_sequence out = map st_stop_sequence stops
     \<and> map arrival_seconds (timed out)
         = spec_enforce (map_option int prev) (map (candidate delay_stats trip_id) (timed stops))"
proof (induction stops arbitrary: prev)
  case Nil
  then show ?case by (simp add: timed_def)
next
  case (Cons st stops)
  show ?case
  proof (cases "arrival_time st")
    case Blank
    from Cons.IH [of prev] obtain out where
      "process_stops delay_stats trip_id prev stops = Inr out"
      "map st_stop_sequence out = map st_stop_sequence stops"
      "map arrival_seconds (timed out)
         = spec_enforce (map_option int prev) (map (candidate delay_stats trip_id) (timed stops))"
      by blast
    then show ?thesis using Blank by (simp add: timed_def process_stop_blank)
  next
    case (HMS h m s)
    from process_stop_timed [OF HMS, of delay_stats trip_id prev] obtain adj cur where step:
      "process_stop delay_stats trip_id prev st
         = Inr (st\<lparr>arrival_time := adj, departure_time := adj\<rparr>, Some cur)"
      "time_to_seconds adj = Inr cur"
      "int cur = (case map_option int prev of
                None \<Rightarrow> max 0 (candidate delay_stats trip_id st)
              | Some p \<Rightarrow> if max 0 (candidate delay_stats trip_id st) \<le> p then p + 60
                          else max 0 (candidate delay_stats trip_id st))"
      by blast
    from Cons.IH [of "Some cur"] obtain out where out:
      "process_stops delay_stats trip_id (Some cur) stops = Inr out"
      "map st_stop_sequence out = map st_stop_sequence stops"
      "map arrival_seconds (timed out)
         = spec_enforce (Some (int cur)) (map (candidate delay_stats trip_id) (timed stops))"
      by auto
    have upd: "arrival_seconds (st\<lparr>arrival_time := adj, departure_time := adj\<rparr>) = int cur"
      "adj \<noteq> Blank"
      using arrival_seconds_of_time [OF step(2)] by simp_all
    have run: "process_stops delay_stats trip_id prev (st # stops)
        = Inr (st\<lparr>arrival_time := adj, departure_time := adj\<rparr> # out)"
      using step(1) out(1) by simp
    have head: "timed (st # stops) = st # timed stops"
      using HMS by (simp add: timed_def)
    have head': "timed (st\<lparr>arrival_time := adj, departure_time := adj\<rparr> # out)
        = st\<lparr>arrival_time := adj, departure_time := adj\<rparr> # timed out"
      using upd(2) by (simp add: timed_def)
    have "map arrival_seconds (timed (st\<lparr>arrival_time := adj, departure_time := adj\<rparr> # out))
        = spec_enforce (map_option int prev) (map (candidate delay_stats trip_id) (timed (st # stops)))"
      unfolding head head' using upd(1) out(3) step(3) by (simp add: Let_def)
    then show ?thesis using run out(2) by simp
  qed
qed


lemma trips_dict_sorted:
  "(trip_id, stops) \<in> set (trips_dict stop_times_data) \<Longrightarrow> sorted (map st_stop_sequence stops)"
  by (auto simp: trips_dict_def)

text \<open>
  Claim C1.  For every trip that the synthesiser processes, the loop returns (no error),
  keeps the rows in stop-sequence order, and the arrival times of the rows that carry a
  time are non-decreasing, indeed strictly increasing, in that order.  Whenever the
  candidate time of a row (scheduled time plus representative delay) is at most the
  realistic time of the previous timed row, the row gets that time plus 60 seconds.
\<close>

theorem realistic_times_monotonic:
  assumes "(trip_id, result) \<in> set (calculate_realistic_stop_times delay_stats stop_times_data)"
  shows "\<exists>stops out. (trip_id, stops) \<in> set (trips_dict stop_times_data)
       \<and> result = Inr out
       \<and> map st_stop_sequence out = map st_stop_sequence stops
       \<and> sorted (map st_stop_sequence out)
       \<and> sorted_wrt (\<le>) (map arrival_seconds (timed out))
       \<and> sorted_wrt (<) (map arrival_seconds (timed out))
       \<and> length (timed out) = length (timed stops)
       \<and> (\<forall>i. Suc i < length (timed out) \<longrightarrow>
              candidate delay_stats trip_id (timed stops ! Suc i) \<le> arrival_seconds (timed out ! i) \<longrightarrow>
              arrival_seconds (timed out ! Suc i) = arrival_seconds (timed out ! i) + 60)"
proof -
  from assms obtain stops where stops: "(trip_id, stops) \<in> set (trips_dict stop_times_data)"
    and result: "result = process_stops delay_stats trip_id None stops"
    by (auto simp: calculate_realistic_stop_times_def)
  from process_stops_refines [of delay_stats trip_id None stops] obtain out where out:
    "process_stops delay_stats trip_id None stops = Inr out"
    "map st_stop_sequence out = map st_stop_sequence stops"
    "map arrival_seconds (timed out)
       = spec_enforce None (map (candidate delay_stats trip_id) (timed stops))"
    by auto
  let ?cs = "map (candidate delay_stats trip_id) (timed stops)"
  have len: "length (timed out) = length (timed stops)"
    using arg_cong [OF out(3), of length] by (simp add: spec_enforce_length)
  have strict: "sorted_wrt (<) (map arrival_seconds (timed out))"
    unfolding out(3) by (rule spec_enforce_strict) simp
  have weak: "sorted_wrt (\<le>) (map arrival_seconds (timed out))"
    using strict by (rule sorted_wrt_mono_rel [rotated]) simp
  have step: "arrival_seconds (timed out ! Suc i) = arrival_seconds (timed out ! i) + 60"
    if i: "Suc i < length (timed out)"
      and c: "candidate delay_stats trip_id (timed stops ! Suc i) \<le> arrival_seconds (timed out ! i)"
    for i
  proof -
    have n: "Suc i < length ?cs" using i len by simp
    have a: "spec_enforce None ?cs ! i = arrival_seconds (timed out ! i)"
      using i by (simp add: out(3) [symmetric])
    have b: "spec_enforce None ?cs ! Suc i = arrival_seconds (timed out ! Suc i)"
      using i by (simp add: out(3) [symmetric])
    have "max 0 (?cs ! Suc i) \<le> arrival_seconds (timed out ! i)"
      using c n arrival_seconds_nonneg [of "timed out ! i"] by simp
    then show ?thesis
      using spec_enforce_step [of None i ?cs] n a b by simp
  qed
  have "sorted (map st_stop_sequence out)"
    using trips_dict_sorted [OF stops] out(2) by simp
  then show ?thesis
    using stops result out(1,2) weak strict len step by blast
qed

theorem realistic_times_monotonic_witness:
  "(''T'', Inr
          [\<lparr>st_trip_id = ''T'', st_stop_id = ''A'', st_stop_sequence = 1,
             arrival_time = HMS 10 0 0, departure_time = HMS 10 0 0\<rparr>,
           \<lparr>st_trip_id = ''T'', st_stop_id = ''B'', st_stop_sequence = 2,
             arrival_time = HMS 10 3 0, departure_time = HMS 10 3 0\<rparr>,
           \<lparr>st_trip_id = ''T'', st_stop_id = ''C'', st_stop_sequence = 3,
             arrival_time = HMS 10 4 0, departure_time = HMS 10 4 0\<rparr>])
      \<in> set (calculate_realistic_stop_times
           [(''T'', ''B'') \<mapsto> [120], (''T'', ''C'') \<mapsto> [- 60]]
           [\<lparr>st_trip_id = ''T'', st_stop_id = ''C'', st_stop_sequence = 3,
              arrival_time = HMS 10 2 0, departure_time = HMS 10 2 30\<rparr>,
            \<lparr>st_trip_id = ''T'', st_stop_id = ''A'', st_stop_sequence = 1,
              arrival_time = HMS 10 0 0, departure_time = HMS 10 0 30\<rparr>,
            \<lparr>st_trip_id = ''T'', st_stop_id = ''B'', st_stop_sequence = 2,
              arrival_time = HMS 10 1 0, departure_time = HMS 10 1 30\<rparr>])
   \<and> sorted_wrt (\<le>) (map arrival_seconds (timed
          [\<lparr>st_trip_id = ''T'', st_stop_id = ''A'', st_stop_sequence = 1,
             arrival_time = HMS 10 0 0, departure_time = HMS 10 0 0\<rparr>,
           \<lparr>st_trip_id = ''T'', st_stop_id = ''B'', st_stop_sequence = 2,
             arrival_time = HMS 10 3 0, departure_time = HMS 10 3 0\<rparr>,
           \<lparr>st_trip_id = ''T'', st_stop_id = ''C'', st_stop_sequence = 3,
             arrival_time = HMS 10 4 0, departure_time = HMS 10 4 0\<rparr>]))"
proof -
  let ?out = "[\<lparr>st_trip_id = ''T'', st_stop_id = ''A'', st_stop_sequence = 1,
             arrival_time = HMS 10 0 0, departure_time = HMS 10 0 0\<rparr>,
           \<lparr>st_trip_id = ''T'', st_stop_id = ''B'', st_stop_sequence = 2,
             arrival_time = HMS 10 3 0, departure_time = HMS 10 3 0\<rparr>,
           \<lparr>st_trip_id = ''T'', st_stop_id = ''C'', st_stop_sequence = 3,
             arrival_time = HMS 10 4 0, departure_time = HMS 10 4 0\<rparr>]"
  let ?stats = "[(''T'', ''B'') \<mapsto> [120], (''T'', ''C'') \<mapsto> [- 60 :: int]]"
  let ?data = "[\<lparr>st_trip_id = ''T'', st_stop_id = ''C'', st_stop_sequence = 3,
              arrival_time = HMS 10 2 0, departure_time = HMS 10 2 30\<rparr>,
            \<lparr>st_trip_id = ''T'', st_stop_id = ''A'', st_stop_sequence = 1,
              arrival_time = HMS 10 0 0, departure_time = HMS 10 0 30\<rparr>,
            \<lparr>st_trip_id = ''T'', st_stop_id = ''B'', st_stop_sequence = 2,
              arrival_time = HMS 10 1 0, departure_time = HMS 10 1 30\<rparr>]"
  have mem: "(''T'', Inr ?out) \<in> set (calculate_realistic_stop_times ?stats ?data)"
    by (simp add: calculate_realistic_stop_times_def trips_dict_def process_stop_def
        calculate_average_delay_def median_def trunc_half_def format_time_def Let_def)
  from realistic_times_monotonic [OF mem] obtain out where
    "(Inr ?out :: py_error + stop_time list) = Inr out"
    "sorted_wrt (\<le>) (map arrival_seconds (timed out))"
    by blast
  then have "sorted_wrt (\<le>) (map arrival_seconds (timed ?out))"
    by (simp only: sum.inject)
  with mem show ?thesis by (rule conjI)
qed

section \<open>Properties of the arrival observer\<close>

lemma haversine_origin: "haversine 0 0 0 0 = 0"
  by (simp add: haversine_def radians_def atan2_def)

lemma get_latest_arrival_fresh:
  "vehicle_latest_arrival s trip_id = Some arrival \<Longrightarrow> now - last_seen arrival \<le> 60 \<Longrightarrow>
   get_latest_arrival s trip_id now = (Some (arrival_info.truncate arrival), s)"
  by (simp add: get_latest_arrival_def CACHE_TTL_SECONDS_def)

lemma get_latest_arrival_expired:
  "vehicle_latest_arrival s trip_id = Some arrival \<Longrightarrow> now - last_seen arrival > 60 \<Longrightarrow>
   get_latest_arrival s trip_id now =
     (None, s\<lparr>vehicle_latest_arrival := (vehicle_latest_arrival s)(trip_id := None),
              vehicle_arrivals := (vehicle_arrivals s)(trip_id := None)\<rparr>)"
  by (simp add: get_latest_arrival_def CACHE_TTL_SECONDS_def)


text \<open>
  Claim C6, as stated, fails at the boundary: an entry whose age is exactly 60 seconds is
  returned and stays in the cache, because the source expires an entry only when
  \<^verbatim>\<open>age_seconds > CACHE_TTL_SECONDS\<close>.
\<close>

theorem latest_arrival_at_ttl_present:
  "fst (get_latest_arrival example_cached ''T'' 60) = Some (arrival_info.truncate example_entry)
   \<and> vehicle_latest_arrival (snd (get_latest_arrival example_cached ''T'' 60)) ''T''
       = Some example_entry
   \<and> vehicle_arrivals (snd (get_latest_arrival example_cached ''T'' 60)) ''T'' = Some {''S''}"
  by (simp add: get_latest_arrival_def CACHE_TTL_SECONDS_def example_cached_def example_entry_def)

text \<open>
  Claim C6, amended.  For a trip with a cached entry, a read returns the entry (without
  \<^verbatim>\<open>last_seen\<close>) iff its age is at most 60 seconds, and then leaves the state as it is;
  when the age exceeds 60 seconds the read returns nothing and removes both the entry and
  the observed-stop set of the trip.
\<close>

theorem latest_arrival_ttl:
  assumes "vehicle_latest_arrival s trip_id = Some arrival"
  shows "(fst (get_latest_arrival s trip_id now) = Some (arrival_info.truncate arrival)
            \<longleftrightarrow> now - last_seen arrival \<le> 60)
       \<and> (now - last_seen arrival \<le> 60 \<longrightarrow> snd (get_latest_arrival s trip_id now) = s)
       \<and> (now - last_seen arrival > 60 \<longrightarrow>
            fst (get_latest_arrival s trip_id now) = None
          \<and> vehicle_latest_arrival (snd (get_latest_arrival s trip_id now)) trip_id = None
          \<and> vehicle_arrivals (snd (get_latest_arrival s trip_id now)) trip_id = None)"
proof (cases "now - last_seen arrival \<le> 60")
  case True
  then show ?thesis using get_latest_arrival_fresh [OF assms True] by simp
next
  case False
  then have "now - last_seen arrival > 60" by simp
  from get_latest_arrival_expired [OF assms this] False show ?thesis by simp
qed

theorem latest_arrival_ttl_witness:
  "vehicle_latest_arrival example_cached ''T'' = Some example_entry
   \<and> 59.9 - last_seen example_entry \<le> 60
   \<and> fst (get_latest_arrival example_cached ''T'' 59.9) = Some (arrival_info.truncate example_entry)
   \<and> 60.5 - last_seen example_entry > 60
   \<and> fst (get_latest_arrival example_cached ''T'' 60.5) = None
   \<and> vehicle_arrivals (snd (get_latest_arrival example_cached ''T'' 60.5)) ''T'' = None"
proof -
  have e: "vehicle_latest_arrival example_cached ''T'' = Some example_entry"
    by (simp add: example_cached_def)
  have a: "59.9 - last_seen example_entry \<le> 60" "60.5 - last_seen example_entry > 60"
    by (simp_all add: example_entry_def)
  show ?thesis
    using e a latest_arrival_ttl [OF e, of "59.9"] latest_arrival_ttl [OF e, of "60.5"] by simp
qed

lemma check_stop_effect:
  assumes "s' = check_stop cfg now trip_id route_id lat lon s stop_info"
  shows "(arrival_log s' = arrival_log s \<and> (\<forall>t. observed s' t = observed s t))
       \<or> (\<exists>r. arrival_log s' = arrival_log s @ [r] \<and> lr_trip_id r = trip_id
              \<and> lr_stop_id r \<notin> observed s trip_id
              \<and> observed s' trip_id = insert (lr_stop_id r) (observed s trip_id)
              \<and> (\<forall>t. t \<noteq> trip_id \<longrightarrow> observed s' t = observed s t))"
  unfolding assms check_stop_def observed_def Let_def
  by (auto split: option.splits)

lemma dedup_inv_refl: "dedup_inv s t st s"
  by (simp add: dedup_inv_def)

lemma dedup_inv_same:
  "dedup_inv s0 t st s \<Longrightarrow> arrival_log s' = arrival_log s \<Longrightarrow> observed s' t = observed s t \<Longrightarrow>
   dedup_inv s0 t st s'"
  by (simp add: dedup_inv_def records_for_def)

lemma dedup_inv_check_stop:
  assumes "dedup_inv s0 t st s"
  shows "dedup_inv s0 t st (check_stop cfg now trip_id route_id lat lon s stop_info)"
proof -
  define s' where "s' = check_stop cfg now trip_id route_id lat lon s stop_info"
  from check_stop_effect [OF s'_def] show ?thesis
  proof
    assume "arrival_log s' = arrival_log s \<and> (\<forall>t. observed s' t = observed s t)"
    then show ?thesis using dedup_inv_same [OF assms, of s'] by (simp add: s'_def)
  next
    assume "\<exists>r. arrival_log s' = arrival_log s @ [r] \<and> lr_trip_id r = trip_id
              \<and> lr_stop_id r \<notin> observed s trip_id
              \<and> observed s' trip_id = insert (lr_stop_id r) (observed s trip_id)
              \<and> (\<forall>t. t \<noteq> trip_id \<longrightarrow> observed s' t = observed s t)"
    then obtain r where r: "arrival_log s' = arrival_log s @ [r]" "lr_trip_id r = trip_id"
      "lr_stop_id r \<notin> observed s trip_id"
      "observed s' trip_id = insert (lr_stop_id r) (observed s trip_id)"
      "\<forall>t. t \<noteq> trip_id \<longrightarrow> observed s' t = observed s t"
      by blast
    show ?thesis
    proof (cases "trip_id = t \<and> lr_stop_id r = st")
      case True
      then have "st \<notin> observed s t" using r(3) by simp
      then have "length (records_for s t st) = length (records_for s0 t st)"
        using assms by (auto simp: dedup_inv_def)
      moreover have "records_for s' t st = records_for s t st @ [r]"
        using True r(1,2) by (simp add: records_for_def)
      moreover have "st \<in> observed s' t" "observed s t \<subseteq> observed s' t"
        using True r(4) by auto
      ultimately have "dedup_inv s0 t st s'"
        using assms by (auto simp: dedup_inv_def)
      then show ?thesis by (simp add: s'_def)
    next
      case False
      then have "records_for s' t st = records_for s t st"
        using r(1,2) by (auto simp: records_for_def)
      moreover have "observed s t \<subseteq> observed s' t"
        using r(4,5) by (cases "t = trip_id") auto
      ultimately have "dedup_inv s0 t st s'"
        using assms by (auto simp: dedup_inv_def)
      then show ?thesis by (simp add: s'_def)
    qed
  qed
qed

lemma dedup_inv_check_stops:
  "dedup_inv s0 t st s \<Longrightarrow>
   dedup_inv s0 t st (foldl (check_stop cfg now trip_id route_id lat lon) s stop_list)"
  by (induction stop_list arbitrary: s) (simp_all add: dedup_inv_check_stop)

lemma dedup_inv_process_entity:
  "dedup_inv s0 t st (fst acc) \<Longrightarrow> dedup_inv s0 t st (fst (process_entity cfg now acc entity))"
  by (cases acc) (simp add: process_entity_def dedup_inv_check_stops split: option.splits)

lemma dedup_inv_entities:
  "dedup_inv s0 t st (fst acc) \<Longrightarrow>
   dedup_inv s0 t st (fst (foldl (process_entity cfg now) acc feed))"
  by (induction feed arbitrary: acc) (simp_all add: dedup_inv_process_entity)

lemma touch_last_seen_same:
  "arrival_log (touch_last_seen now ids s) = arrival_log s"
  "observed (touch_last_seen now ids s) t = observed s t"
  by (simp_all add: touch_last_seen_def observed_def)

lemma dedup_inv_poll_tick:
  assumes "dedup_inv s0 t st s"
  shows "dedup_inv s0 t st (poll_tick cfg feed now s)"
proof -
  obtain s' ids where f: "foldl (process_entity cfg now) (s, {}) feed = (s', ids)"
    by (cases "foldl (process_entity cfg now) (s, {}) feed") auto
  have "dedup_inv s0 t st s'"
    using dedup_inv_entities [of s0 t st "(s, {})" cfg now feed] assms f by simp
  then have "dedup_inv s0 t st (touch_last_seen now ids s')"
    by (rule dedup_inv_same) (simp_all add: touch_last_seen_same)
  then show ?thesis by (simp add: poll_tick_def f)
qed

lemma dedup_inv_step:
  assumes "dedup_inv s0 t st s" and "\<not> evicts s t op"
  shows "dedup_inv s0 t st (observer_step cfg s op)"
proof (cases op)
  case (Poll feed now)
  then show ?thesis using assms(1) by (simp add: dedup_inv_poll_tick)
next
  case PollFailed
  then show ?thesis using assms(1) by simp
next
  case (Read trip_id now)
  have "arrival_log (snd (get_latest_arrival s trip_id now)) = arrival_log s"
    by (simp add: get_latest_arrival_def Let_def split: option.splits)
  moreover have "observed (snd (get_latest_arrival s trip_id now)) t = observed s t"
    using assms(2) Read
    by (auto simp: get_latest_arrival_def Let_def observed_def split: option.splits)
  ultimately show ?thesis using Read dedup_inv_same [OF assms(1)] by simp
qed

lemma dedup_inv_run:
  "dedup_inv s0 t st s \<Longrightarrow> eviction_free cfg t s ops \<Longrightarrow>
   dedup_inv s0 t st (observer_run cfg s ops)"
  unfolding observer_run_def
  by (induction ops arbitrary: s) (simp_all add: dedup_inv_step)


text \<open>
  Claim C5, as stated, fails: a read that finds the entry of a trip older than 60 seconds
  deletes the observed-stop set of the trip (lines 192--195), so the set loses its
  elements and the next tick that sees the vehicle at the same stop appends a second
  record for the same (trip, stop).
\<close>

theorem observer_relogs_after_eviction:
  "observed (observer_run example_config initial_state [Poll example_feed 0]) ''T'' = {''S''}
   \<and> observed (observer_run example_config initial_state
                 [Poll example_feed 0, Read ''T'' 61]) ''T'' = {}
   \<and> length (records_for (observer_run example_config initial_state
                 [Poll example_feed 0, Read ''T'' 61, Poll example_feed 66]) ''T'' ''S'') = 2"
  by (simp add: observer_run_def Let_def initial_state_def get_latest_arrival_def
      CACHE_TTL_SECONDS_def poll_tick_def process_entity_def check_stop_def example_config_def
      example_feed_def haversine_origin DISTANCE_THRESHOLD_M_def touch_last_seen_def
      records_for_def observed_def)

text \<open>
  Claim C5, amended.  Over any sequence of observer operations (ticks, skipped ticks,
  cache reads) in which no read finds the entry of the trip older than 60 seconds, at
  most one record is appended to the log for every pair (trip, stop), and the observed
  set of the trip does not lose an element.  From process start this bounds the number
  of records of the pair by one.
\<close>

theorem observer_dedup:
  assumes "eviction_free cfg trip_id s ops"
  shows "length (records_for (observer_run cfg s ops) trip_id stop_id)
           \<le> length (records_for s trip_id stop_id) + 1
       \<and> observed s trip_id \<subseteq> observed (observer_run cfg s ops) trip_id
       \<and> (s = initial_state \<longrightarrow>
            length (records_for (observer_run cfg s ops) trip_id stop_id) \<le> 1)"
  using dedup_inv_run [OF dedup_inv_refl assms, of stop_id]
  by (auto simp: dedup_inv_def records_for_def initial_state_def)

theorem observer_dedup_witness:
  "eviction_free example_config ''T'' initial_state
     [Poll example_feed 0, Read ''T'' 60, Poll example_feed 65]
   \<and> length (records_for (observer_run example_config initial_state
                 [Poll example_feed 0, Read ''T'' 60, Poll example_feed 65]) ''T'' ''S'') \<le> 1
   \<and> length (records_for (observer_run example_config initial_state
                 [Poll example_feed 0, Read ''T'' 60, Poll example_feed 65]) ''T'' ''S'') = 1"
proof -
  have free: "eviction_free example_config ''T'' initial_state
     [Poll example_feed 0, Read ''T'' 60, Poll example_feed 65]"
    by (simp add: Let_def initial_state_def get_latest_arrival_def CACHE_TTL_SECONDS_def
        poll_tick_def process_entity_def check_stop_def example_config_def example_feed_def
        haversine_origin DISTANCE_THRESHOLD_M_def touch_last_seen_def)
  have one: "length (records_for (observer_run example_config initial_state
                 [Poll example_feed 0, Read ''T'' 60, Poll example_feed 65]) ''T'' ''S'') = 1"
    by (simp add: observer_run_def Let_def initial_state_def get_latest_arrival_def
        CACHE_TTL_SECONDS_def poll_tick_def process_entity_def check_stop_def example_config_def
        example_feed_def haversine_origin DISTANCE_THRESHOLD_M_def touch_last_seen_def
        records_for_def observed_def)
  from observer_dedup [OF free, of "''S''"] free one show ?thesis by simp
qed

end
